theory Spec2Isabelle
  imports Complex_Main "HOL-Library.Multiset" "HOL-Library.AList"
begin

section \<open>Mask cells and arrays\<close>

text \<open>
  The masks of \<^verbatim>\<open>prior.py\<close> are numpy arrays of \<^verbatim>\<open>float32\<close>. A cell is a finite
  number, one of the two infinities or NaN. Addition follows IEEE 754 on the special
  values; on finite values it is the exact sum (rounding is left out: the only finite value
  the constraints ever write or add is \<open>0.0\<close>, where the float sum is exact).
\<close>

datatype float32 = Fin real | PInf | NInf | NaN

fun fadd :: "float32 \<Rightarrow> float32 \<Rightarrow> float32" where
  "fadd NaN y = NaN"
| "fadd x NaN = NaN"
| "fadd PInf NInf = NaN"
| "fadd NInf PInf = NaN"
| "fadd PInf y = PInf"
| "fadd x PInf = PInf"
| "fadd NInf y = NInf"
| "fadd x NInf = NInf"
| "fadd (Fin a) (Fin b) = Fin (a + b)"

text \<open>Every \<^verbatim>\<open>raise\<close> and failed \<^verbatim>\<open>assert\<close> of the source is a value.\<close>

datatype error =
  AssertionError | NotImplementedError | IndexError | ValueError | LookupError

definition then_do :: "error + 'a \<Rightarrow> ('a \<Rightarrow> error + 'b) \<Rightarrow> error + 'b" where
  "then_do m f = (case m of Inl e \<Rightarrow> Inl e | Inr x \<Rightarrow> f x)"

text \<open>
  A two-dimensional array is the list of its rows; a one-dimensional array is a list.
  \<^verbatim>\<open>np.zeros((n, L))\<close> and \<^verbatim>\<open>np.zeros((L,))\<close>:
\<close>

definition zeros1 :: "nat \<Rightarrow> float32 list" where
  "zeros1 l = replicate l (Fin 0)"

definition zeros2 :: "nat \<Rightarrow> nat \<Rightarrow> float32 list list" where
  "zeros2 n l = replicate n (zeros1 l)"

text \<open>
  \<^verbatim>\<open>a += b\<close> on arrays whose trailing axis agrees (both have the \<open>L\<close> columns of one
  library): numpy adds row by row when the row counts agree, repeats the single row of
  \<open>b\<close> when \<open>b\<close> has one row, and raises ValueError otherwise (an in-place sum cannot
  grow \<open>a\<close>).
\<close>

definition row_add :: "float32 list \<Rightarrow> float32 list \<Rightarrow> float32 list" where
  "row_add xs ys = map2 fadd xs ys"

definition iadd :: "float32 list list \<Rightarrow> float32 list list \<Rightarrow> error + float32 list list" where
  "iadd a b =
     (if length b = length a then Inr (map2 row_add a b)
      else if length b = 1 then Inr (map (\<lambda>r. row_add r (hd b)) a)
      else Inl ValueError)"

text \<open>The same for one-dimensional arrays (\<^verbatim>\<open>combined_prior += prior.initial_prior()\<close>).\<close>

definition iadd1 :: "float32 list \<Rightarrow> float32 list \<Rightarrow> error + float32 list" where
  "iadd1 a b =
     (if length b = length a then Inr (row_add a b)
      else if length b = 1 then Inr (map (\<lambda>x. fadd x (hd b)) a)
      else Inl ValueError)"

text \<open>
  The array \<^verbatim>\<open>actions\<close> (batch rows by time steps). The constraints read its shape
  only.
\<close>

record ndarray2 =
  shape0 :: nat
  shape1 :: nat
  elems :: "int list list"

section \<open>The library\<close>

text \<open>
  Modelled from the spec: the class \<^verbatim>\<open>Library\<close> (\<^verbatim>\<open>dsr/library.py\<close>) is not among the
  sources. The fields are the attributes that \<^verbatim>\<open>prior.py\<close> reads: the tokens with their
  arities, the vocabulary size \<open>L\<close>, the derived index lists, the table
  \<^verbatim>\<open>parent_adjust\<close> and the dictionary \<^verbatim>\<open>inverse_tokens\<close> (insertion-ordered, hence an
  association list). A token is referred to by its id, as \<^verbatim>\<open>library.parent_adjust[parents]\<close>
  requires.
\<close>

record token =
  name :: string
  arity :: nat

record library =
  tokens :: "token list"
  L :: nat
  terminal_tokens :: "nat list"
  unary_tokens :: "nat list"
  binary_tokens :: "nat list"
  parent_adjust :: "int list"
  inverse_tokens :: "(nat \<times> nat) list"

text \<open>
  Modelled from the spec: \<^verbatim>\<open>tokenize\<close> looks every id up among the tokens and
  \<^verbatim>\<open>actionize\<close> returns the ids of the tokens found; an unknown token is a LookupError.
\<close>

fun tokenize :: "library \<Rightarrow> nat list \<Rightarrow> error + token list" where
  "tokenize lib [] = Inr []"
| "tokenize lib (t # ts) =
     (if t < length (tokens lib)
      then then_do (tokenize lib ts) (\<lambda>r. Inr (tokens lib ! t # r))
      else Inl LookupError)"

definition actionize :: "library \<Rightarrow> nat list \<Rightarrow> error + nat list" where
  "actionize lib ts = then_do (tokenize lib ts) (\<lambda>_. Inr ts)"

text \<open>
  The library's invariants that the constraints rely on: the table and the vocabulary
  have \<open>L\<close> entries and every derived index is a token id.
\<close>

definition library_ok :: "library \<Rightarrow> bool" where
  "library_ok lib \<longleftrightarrow>
     length (tokens lib) = L lib \<and> length (parent_adjust lib) = L lib \<and>
     (\<forall>t \<in> set (terminal_tokens lib). t < L lib) \<and>
     (\<forall>t \<in> set (unary_tokens lib). t < L lib) \<and>
     (\<forall>t \<in> set (binary_tokens lib). t < L lib)"

section \<open>Priors and constraints\<close>

subsection \<open>\<^verbatim>\<open>Prior\<close> and \<^verbatim>\<open>Constraint\<close>\<close>

text \<open>\<^verbatim>\<open>Prior.zeros\<close> and \<^verbatim>\<open>Prior.initial_prior\<close>, for a prior whose \<^verbatim>\<open>self.L\<close> is \<open>l\<close>.\<close>

definition zeros :: "nat \<Rightarrow> ndarray2 \<Rightarrow> float32 list list" where
  "zeros l actions = zeros2 (shape0 actions) l"

definition Prior_initial_prior :: "nat \<Rightarrow> float32 list" where
  "Prior_initial_prior l = zeros1 l"

text \<open>
  \<^verbatim>\<open>prior[mask, t] = -np.inf\<close>: the rows selected by the boolean mask get \<open>-inf\<close> in
  column \<open>t\<close>. A column index \<open>t\<close> beyond the last column is an IndexError.
\<close>

definition assign_col :: "nat \<Rightarrow> bool list \<Rightarrow> nat \<Rightarrow> float32 list list \<Rightarrow> error + float32 list list" where
  "assign_col l msk t prior =
     (if t < l
      then Inr (map2 (\<lambda>m row. if m then row[t := NInf] else row) msk prior)
      else Inl IndexError)"

fun assign_cols :: "nat \<Rightarrow> bool list \<Rightarrow> nat list \<Rightarrow> float32 list list \<Rightarrow> error + float32 list list" where
  "assign_cols l msk [] prior = Inr prior"
| "assign_cols l msk (t # ts) prior = then_do (assign_col l msk t prior) (assign_cols l msk ts)"

definition make_constraint :: "nat \<Rightarrow> bool list \<Rightarrow> nat list \<Rightarrow> error + float32 list list" where
  "make_constraint l msk toks = assign_cols l msk toks (zeros2 (length msk) l)"

subsection \<open>\<^verbatim>\<open>LengthConstraint\<close>\<close>

record length_constraint =
  lc_library :: library
  lc_min :: "int option"
  lc_max :: "int option"

definition LengthConstraint_init :: "library \<Rightarrow> int option \<Rightarrow> int option \<Rightarrow> error + length_constraint" where
  "LengthConstraint_init lib mn mx =
     (if mn \<noteq> None \<or> mx \<noteq> None
      then Inr \<lparr>lc_library = lib, lc_min = mn, lc_max = mx\<rparr>
      else Inl AssertionError)"

fun assign1 :: "nat list \<Rightarrow> float32 list \<Rightarrow> error + float32 list" where
  "assign1 [] prior = Inr prior"
| "assign1 (t # ts) prior =
     (if t < length prior then assign1 ts (prior[t := NInf]) else Inl IndexError)"

definition LengthConstraint_initial_prior :: "length_constraint \<Rightarrow> error + float32 list" where
  "LengthConstraint_initial_prior self =
     assign1 (terminal_tokens (lc_library self)) (Prior_initial_prior (L (lc_library self)))"

text \<open>
  \<^verbatim>\<open>LengthConstraint.__call__\<close>. Python's \<^verbatim>\<open>//\<close> rounds down, as \<open>div\<close> on \<open>int\<close>
  does. The two halves are the blocks under the two \<^verbatim>\<open>if\<close>s.
\<close>

definition LengthConstraint_call ::
  "length_constraint \<Rightarrow> ndarray2 \<Rightarrow> int list \<Rightarrow> int list \<Rightarrow> int list \<Rightarrow> error + float32 list list" where
  "LengthConstraint_call self actions parent sibling dangling =
     (let lib = lc_library self;
          l = L lib;
          prior = zeros l actions;
          i = int (shape1 actions) - 1
      in then_do
           (case lc_max self of
              Some mx \<Rightarrow>
                if i + 2 \<ge> mx div 2 then
                  (let remaining = mx - (i + 1) in
                   then_do (make_constraint l (map (\<lambda>d. d \<ge> remaining - 1) dangling) (binary_tokens lib))
                     (\<lambda>c1. then_do (iadd prior c1)
                     (\<lambda>prior1. then_do (make_constraint l (map (\<lambda>d. d = remaining) dangling) (unary_tokens lib))
                     (\<lambda>c2. iadd prior1 c2))))
                else Inr prior
            | None \<Rightarrow> Inr prior)
           (\<lambda>prior2.
              case lc_min self of
                Some mn \<Rightarrow>
                  if i + 2 < mn then
                    then_do (make_constraint l (map (\<lambda>d. d = 1) dangling) (terminal_tokens lib))
                      (\<lambda>c3. iadd prior2 c3)
                  else Inr prior2
              | None \<Rightarrow> Inr prior2))"

subsection \<open>\<^verbatim>\<open>ChildConstraint\<close> and \<^verbatim>\<open>InverseUnaryConstraint\<close>\<close>

record child_constraint =
  cc_library :: library
  cc_children :: "nat list"
  cc_parents :: "nat list"
  cc_adj_parents :: "int list"

text \<open>\<^verbatim>\<open>table[ids]\<close>: indexing an array by a list of ids; an id beyond the table is an IndexError.\<close>

fun index_list :: "int list \<Rightarrow> nat list \<Rightarrow> error + int list" where
  "index_list tab [] = Inr []"
| "index_list tab (p # ps) =
     (if p < length tab
      then then_do (index_list tab ps) (\<lambda>r. Inr (tab ! p # r))
      else Inl IndexError)"

text \<open>
  \<^verbatim>\<open>ChildConstraint.__init__\<close>. The source asserts the list
  \<^verbatim>\<open>[p.arity > 0 for p in library.tokenize(parents)]\<close> itself, and a Python list is true
  exactly when it is not empty.
\<close>

definition ChildConstraint_init :: "library \<Rightarrow> nat list \<Rightarrow> nat list \<Rightarrow> error + child_constraint" where
  "ChildConstraint_init lib children parents =
     then_do (actionize lib children) (\<lambda>cs.
     then_do (actionize lib parents) (\<lambda>ps.
     then_do (index_list (parent_adjust lib) parents) (\<lambda>adj.
     then_do (tokenize lib parents) (\<lambda>toks.
       if map (\<lambda>p. arity p > 0) toks \<noteq> []
       then Inr \<lparr>cc_library = lib, cc_children = cs, cc_parents = ps, cc_adj_parents = adj\<rparr>
       else Inl AssertionError))))"

fun child_loop :: "nat \<Rightarrow> int list \<Rightarrow> (nat \<times> int) list \<Rightarrow> float32 list list \<Rightarrow> error + float32 list list" where
  "child_loop l parent [] prior = Inr prior"
| "child_loop l parent ((c, adj_p) # rest) prior =
     then_do (make_constraint l (map (\<lambda>p. p = adj_p) parent) [c])
       (\<lambda>m. then_do (iadd prior m) (child_loop l parent rest))"

definition ChildConstraint_call ::
  "child_constraint \<Rightarrow> ndarray2 \<Rightarrow> int list \<Rightarrow> int list \<Rightarrow> int list \<Rightarrow> error + float32 list list" where
  "ChildConstraint_call self actions parent sibling dangling =
     child_loop (L (cc_library self)) parent
       (zip (cc_children self) (cc_adj_parents self))
       (zeros (L (cc_library self)) actions)"

definition InverseUnaryConstraint_init :: "library \<Rightarrow> error + child_constraint" where
  "InverseUnaryConstraint_init lib =
     (let parents = map fst (inverse_tokens lib);
          children = map snd (inverse_tokens lib)
      in ChildConstraint_init lib children parents)"

subsection \<open>\<^verbatim>\<open>DescendantConstraint\<close> and \<^verbatim>\<open>RepeatConstraint\<close>\<close>

record descendant_constraint =
  dc_library :: library
  dc_descendants :: "nat list"
  dc_ancestors :: "nat list"

definition DescendantConstraint_init :: "library \<Rightarrow> nat list \<Rightarrow> nat list \<Rightarrow> error + descendant_constraint" where
  "DescendantConstraint_init lib descendants ancestors =
     then_do (actionize lib descendants) (\<lambda>ds.
     then_do (actionize lib ancestors) (\<lambda>as.
       Inr \<lparr>dc_library = lib, dc_descendants = ds, dc_ancestors = as\<rparr>))"

definition DescendantConstraint_call ::
  "descendant_constraint \<Rightarrow> ndarray2 \<Rightarrow> int list \<Rightarrow> int list \<Rightarrow> int list \<Rightarrow> error + float32 list list" where
  "DescendantConstraint_call self actions parent sibling dangling = Inl NotImplementedError"

record repeat_constraint =
  rc_library :: library
  rc_min :: "int option"
  rc_max :: "int option"
  rc_tokens :: "nat list"

definition RepeatConstraint_init :: "library \<Rightarrow> nat list \<Rightarrow> int option \<Rightarrow> int option \<Rightarrow> error + repeat_constraint" where
  "RepeatConstraint_init lib toks mn mx =
     (if mn \<noteq> None \<or> mx \<noteq> None
      then Inr \<lparr>rc_library = lib, rc_min = mn, rc_max = mx, rc_tokens = toks\<rparr>
      else Inl AssertionError)"

definition RepeatConstraint_call ::
  "repeat_constraint \<Rightarrow> ndarray2 \<Rightarrow> int list \<Rightarrow> int list \<Rightarrow> int list \<Rightarrow> error + float32 list list" where
  "RepeatConstraint_call self actions parent sibling dangling = Inl NotImplementedError"

subsection \<open>\<^verbatim>\<open>JointPrior\<close>\<close>

text \<open>
  The constraint classes as one type; a method call on a prior dispatches on its class.
  An \<^verbatim>\<open>InverseUnaryConstraint\<close> is a \<^verbatim>\<open>ChildConstraint\<close> with its own constructor.
  Only \<^verbatim>\<open>LengthConstraint\<close> overrides \<^verbatim>\<open>initial_prior\<close>.
\<close>

datatype prior =
  Length length_constraint
| Child child_constraint
| Descendant descendant_constraint
| Repeat repeat_constraint

fun prior_library :: "prior \<Rightarrow> library" where
  "prior_library (Length c) = lc_library c"
| "prior_library (Child c) = cc_library c"
| "prior_library (Descendant c) = dc_library c"
| "prior_library (Repeat c) = rc_library c"

fun prior_call :: "prior \<Rightarrow> ndarray2 \<Rightarrow> int list \<Rightarrow> int list \<Rightarrow> int list \<Rightarrow> error + float32 list list" where
  "prior_call (Length c) actions parent sibling dangling = LengthConstraint_call c actions parent sibling dangling"
| "prior_call (Child c) actions parent sibling dangling = ChildConstraint_call c actions parent sibling dangling"
| "prior_call (Descendant c) actions parent sibling dangling = DescendantConstraint_call c actions parent sibling dangling"
| "prior_call (Repeat c) actions parent sibling dangling = RepeatConstraint_call c actions parent sibling dangling"

fun prior_initial_prior :: "prior \<Rightarrow> error + float32 list" where
  "prior_initial_prior (Length c) = LengthConstraint_initial_prior c"
| "prior_initial_prior p = Inr (Prior_initial_prior (L (prior_library p)))"

record joint_prior =
  jp_library :: library
  jp_L :: nat
  jp_priors :: "prior list"

text \<open>\<^verbatim>\<open>prior.library is library\<close> compares objects; here, values.\<close>

definition JointPrior_init :: "library \<Rightarrow> prior list \<Rightarrow> error + joint_prior" where
  "JointPrior_init lib priors =
     (if list_all (\<lambda>p. prior_library p = lib) priors
      then Inr \<lparr>jp_library = lib, jp_L = L lib, jp_priors = priors\<rparr>
      else Inl AssertionError)"

fun initial_loop :: "prior list \<Rightarrow> float32 list \<Rightarrow> error + float32 list" where
  "initial_loop [] combined = Inr combined"
| "initial_loop (p # ps) combined =
     then_do (prior_initial_prior p)
       (\<lambda>v. then_do (iadd1 combined v) (initial_loop ps))"

definition JointPrior_initial_prior :: "joint_prior \<Rightarrow> error + float32 list" where
  "JointPrior_initial_prior self = initial_loop (jp_priors self) (zeros1 (jp_L self))"

text \<open>
  \<^verbatim>\<open>ind_priors[i] += self.priors[i](actions, parent, sibling, dangling)\<close> for every
  prior in turn, each on its own copy of \<^verbatim>\<open>zero_prior\<close>.
\<close>

fun ind_loop ::
  "float32 list list \<Rightarrow> prior list \<Rightarrow> ndarray2 \<Rightarrow> int list \<Rightarrow> int list \<Rightarrow> int list \<Rightarrow> error + float32 list list list" where
  "ind_loop zero_prior [] actions parent sibling dangling = Inr []"
| "ind_loop zero_prior (p # ps) actions parent sibling dangling =
     then_do (prior_call p actions parent sibling dangling)
       (\<lambda>m. then_do (iadd zero_prior m)
       (\<lambda>x. then_do (ind_loop zero_prior ps actions parent sibling dangling)
       (\<lambda>r. Inr (x # r))))"

text \<open>
  Python's \<^verbatim>\<open>sum\<close> starts from the integer \<open>0\<close>: the first addition is scalar plus
  array, the later ones add arrays of one shape.
\<close>

datatype accum = Scalar float32 | Array "float32 list list"

fun accum_add :: "accum \<Rightarrow> float32 list list \<Rightarrow> float32 list list" where
  "accum_add (Scalar s) m = map (map (fadd s)) m"
| "accum_add (Array a) m = map2 row_add a m"

definition py_sum :: "float32 list list list \<Rightarrow> accum" where
  "py_sum ms = foldl (\<lambda>a m. Array (accum_add a m)) (Scalar (Fin 0)) ms"

definition JointPrior_call ::
  "joint_prior \<Rightarrow> ndarray2 \<Rightarrow> int list \<Rightarrow> int list \<Rightarrow> int list \<Rightarrow> error + float32 list list" where
  "JointPrior_call self actions parent sibling dangling =
     (let zero_prior = zeros2 (shape0 actions) (jp_L self)
      in then_do (ind_loop zero_prior (jp_priors self) actions parent sibling dangling)
           (\<lambda>ind_priors. Inr (accum_add (py_sum ind_priors) zero_prior)))"

section \<open>The reactive validator\<close>

definition TRIG_TOKENS :: "string list" where
  "TRIG_TOKENS = [''sin'', ''cos'', ''tan'', ''csc'', ''sec'', ''cot'']"

text \<open>\<^verbatim>\<open>d.update(new)\<close> on a dictionary kept as an association list.\<close>

definition dict_update :: "('k \<times> 'v) list \<Rightarrow> ('k \<times> 'v) list \<Rightarrow> ('k \<times> 'v) list" where
  "dict_update d new = fold (\<lambda>(k, v). AList.update k v) new d"

definition INVERSE_TOKENS_base :: "(string \<times> string) list" where
  "INVERSE_TOKENS_base =
     [(''exp'', ''log''), (''neg'', ''neg''), (''inv'', ''inv''), (''sqrt'', ''n2'')]"

definition INVERSE_TOKENS_trig :: "(string \<times> string) list" where
  "INVERSE_TOKENS_trig =
     dict_update INVERSE_TOKENS_base (map (\<lambda>t. (t, ''arc'' @ t)) TRIG_TOKENS)"

definition INVERSE_TOKENS :: "(string \<times> string) list" where
  "INVERSE_TOKENS =
     dict_update INVERSE_TOKENS_trig (map (\<lambda>(k, v). (v, k)) INVERSE_TOKENS_trig)"

fun check_inv :: "string list \<Rightarrow> bool" where
  "check_inv (a # b # rest) =
     (if (case map_of INVERSE_TOKENS a of Some v \<Rightarrow> b = v | None \<Rightarrow> False) then True
      else check_inv (b # rest))"
| "check_inv names = False"

text \<open>
  \<^verbatim>\<open>check_trig\<close>. The lists \<^verbatim>\<open>UNARY_TOKENS\<close> and \<^verbatim>\<open>BINARY_TOKENS\<close> come from
  \<^verbatim>\<open>dsr.functions\<close>, which is not among the sources: they are parameters. The loop
  carries \<^verbatim>\<open>trig_descendant\<close> and \<^verbatim>\<open>trig_dangling\<close>; the source reads
  \<^verbatim>\<open>trig_dangling\<close> only while \<^verbatim>\<open>trig_descendant\<close> is set, that is after assigning it,
  and the model holds 0 before.
\<close>

fun trig_loop :: "string list \<Rightarrow> string list \<Rightarrow> bool \<Rightarrow> int \<Rightarrow> string list \<Rightarrow> bool" where
  "trig_loop unary binary trig_descendant trig_dangling [] = False"
| "trig_loop unary binary trig_descendant trig_dangling (n # ns) =
     (if n \<in> set TRIG_TOKENS then
        (if trig_descendant then True else trig_loop unary binary True 1 ns)
      else if trig_descendant then
        (let d = (if n \<in> set binary then trig_dangling + 1
                  else if n \<notin> set unary then trig_dangling - 1
                  else trig_dangling)
         in if d = 0 then trig_loop unary binary False d ns
            else trig_loop unary binary trig_descendant d ns)
      else trig_loop unary binary trig_descendant trig_dangling ns)"

definition check_trig :: "string list \<Rightarrow> string list \<Rightarrow> string list \<Rightarrow> bool" where
  "check_trig unary binary names = trig_loop unary binary False 0 names"

text \<open>
  An individual is a DEAP tree: \<^verbatim>\<open>len(ind)\<close> is the number of its nodes, iterating it
  gives the nodes depth-first, and \<^verbatim>\<open>height\<close> is its depth.
\<close>

record individual =
  nodes :: "string list"
  height :: int

text \<open>
  \<^verbatim>\<open>random.choice(keep_inds)\<close>: the \<open>k\<close>-th draw of the random source \<open>rng\<close> picks an
  index; choosing from an empty list is an IndexError.
\<close>

definition random_choice :: "(nat \<Rightarrow> nat) \<Rightarrow> nat \<Rightarrow> 'a list \<Rightarrow> error + 'a" where
  "random_choice rng k xs =
     (if xs = [] then Inl IndexError else Inr (xs ! (rng k mod length xs)))"

text \<open>
  The loop of the wrapper over \<^verbatim>\<open>new_inds\<close>; \<open>k\<close> counts the draws made so far.
\<close>

fun check_loop ::
  "string list \<Rightarrow> string list \<Rightarrow> int \<Rightarrow> int \<Rightarrow> int \<Rightarrow> (nat \<Rightarrow> nat) \<Rightarrow> individual list \<Rightarrow>
   nat \<Rightarrow> individual list \<Rightarrow> error + individual list" where
  "check_loop unary binary max_length min_length max_depth rng keep_inds k [] = Inr []"
| "check_loop unary binary max_length min_length max_depth rng keep_inds k (ind # rest) =
     (let l = int (length (nodes ind));
          replace = then_do (random_choice rng k keep_inds)
            (\<lambda>c. then_do (check_loop unary binary max_length min_length max_depth rng keep_inds (Suc k) rest)
            (\<lambda>r. Inr (c # r)));
          keep = then_do (check_loop unary binary max_length min_length max_depth rng keep_inds k rest)
            (\<lambda>r. Inr (ind # r))
      in if l > max_length then replace
         else if l < min_length then replace
         else if height ind > max_depth then replace
         else if check_inv (nodes ind) then replace
         else if check_trig unary binary (nodes ind) then replace
         else keep)"

text \<open>
  The wrapper that \<^verbatim>\<open>checkConstraint(max_length, min_length, max_depth)\<close> puts around an
  operator \<open>func\<close>. \<^verbatim>\<open>keep_inds\<close> holds deep copies of the arguments made before the
  call, so what \<open>func\<close> does to its arguments does not reach them: they are the values
  of the arguments.
\<close>

definition checkConstraint ::
  "string list \<Rightarrow> string list \<Rightarrow> int \<Rightarrow> int \<Rightarrow> int \<Rightarrow> (nat \<Rightarrow> nat) \<Rightarrow>
   (individual list \<Rightarrow> individual list) \<Rightarrow> individual list \<Rightarrow> error + individual list" where
  "checkConstraint unary binary max_length min_length max_depth rng func args =
     (let keep_inds = args;
          new_inds = func args
      in check_loop unary binary max_length min_length max_depth rng keep_inds 0 new_inds)"

section \<open>Auxiliary definitions\<close>

text \<open>
  The array with \<open>n\<close> rows and \<open>l\<close> columns that holds \<open>-inf\<close> where \<open>f\<close> forbids and
  \<open>0.0\<close> elsewhere. The masks of the constraints are shown to be of this form.
\<close>

definition mask_of :: "nat \<Rightarrow> nat \<Rightarrow> (nat \<Rightarrow> nat \<Rightarrow> bool) \<Rightarrow> float32 list list" where
  "mask_of n l f = map (\<lambda>r. map (\<lambda>j. if f r j then NInf else Fin 0) [0..<l]) [0..<n]"

text \<open>
  The library of the scenarios: \<open>const\<close> and \<open>x1\<close> (terminals), \<open>add\<close> (binary) and
  \<open>sin\<close> (unary); a batch of one row after the tokens \<open>add\<close>, \<open>x1\<close>.
\<close>

definition scenario_library :: library where
  "scenario_library =
     \<lparr>tokens = [\<lparr>name = ''const'', arity = 0\<rparr>, \<lparr>name = ''x1'', arity = 0\<rparr>,
                \<lparr>name = ''add'', arity = 2\<rparr>, \<lparr>name = ''sin'', arity = 1\<rparr>],
      L = 4, terminal_tokens = [0, 1], unary_tokens = [3], binary_tokens = [2],
      parent_adjust = [-1, -1, 0, 1], inverse_tokens = []\<rparr>"

definition scenario_actions :: ndarray2 where
  "scenario_actions = \<lparr>shape0 = 1, shape1 = 2, elems = [[2, 1]]\<rparr>"

text \<open>The same for a one-dimensional array.\<close>

definition row_of :: "nat \<Rightarrow> (nat \<Rightarrow> bool) \<Rightarrow> float32 list" where
  "row_of l f = map (\<lambda>j. if f j then NInf else Fin 0) [0..<l]"

text \<open>
  The hard constraints know two cell values only, \<open>0.0\<close> and \<open>-inf\<close>; a mask is hard
  when all its cells are.
\<close>

definition hard_cell :: "float32 \<Rightarrow> bool" where
  "hard_cell c \<longleftrightarrow> c = Fin 0 \<or> c = NInf"

definition hard_row :: "float32 list \<Rightarrow> bool" where
  "hard_row xs = list_all hard_cell xs"

definition hard_mask :: "float32 list list \<Rightarrow> bool" where
  "hard_mask m = list_all hard_row m"

fun hard_accum :: "accum \<Rightarrow> bool" where
  "hard_accum (Scalar s) = hard_cell s"
| "hard_accum (Array a) = hard_mask a"

text \<open>
  A child constraint refers to token ids of its library. The constructor guarantees it
  through \<^verbatim>\<open>actionize\<close>.
\<close>

fun prior_ok :: "prior \<Rightarrow> bool" where
  "prior_ok (Child c) = list_all (\<lambda>x. x < L (cc_library c)) (cc_children c)"
| "prior_ok p = True"

text \<open>
  The trigonometric nesting rule in the words of the specification. On entering a
  trigonometric token an open counter is seeded at 1. Of the tokens that follow, a binary
  token adds one to it and any other token that is neither unary nor trigonometric takes
  one off; the subtree stays open as long as the counter has not reached 0. The rule is
  violated when the next trigonometric token arrives while the subtree is open.
\<close>

definition counter_step :: "string list \<Rightarrow> string list \<Rightarrow> string \<Rightarrow> int" where
  "counter_step unary binary n = (if n \<in> set binary then 1 else if n \<notin> set unary then - 1 else 0)"

definition subtree_open :: "string list \<Rightarrow> string list \<Rightarrow> int \<Rightarrow> string list \<Rightarrow> bool" where
  "subtree_open unary binary c mid \<longleftrightarrow>
     (\<forall>m \<le> length mid. c + sum_list (map (counter_step unary binary) (take m mid)) \<noteq> 0)"

definition trig_reentered :: "string list \<Rightarrow> string list \<Rightarrow> int \<Rightarrow> string list \<Rightarrow> bool" where
  "trig_reentered unary binary c ns \<longleftrightarrow>
     (\<exists>mid b post. ns = mid @ b # post \<and> b \<in> set TRIG_TOKENS \<and>
        (\<forall>n \<in> set mid. n \<notin> set TRIG_TOKENS) \<and> subtree_open unary binary c mid)"

definition spec_check_trig :: "string list \<Rightarrow> string list \<Rightarrow> string list \<Rightarrow> bool" where
  "spec_check_trig unary binary names \<longleftrightarrow>
     (\<exists>pre a rest. names = pre @ a # rest \<and> a \<in> set TRIG_TOKENS \<and> trig_reentered unary binary 1 rest)"

text \<open>
  Two adjacent names that are registered inverses, and the five checks of the wrapper in
  the words of the specification.
\<close>

definition adjacent_inverses :: "string list \<Rightarrow> bool" where
  "adjacent_inverses names \<longleftrightarrow>
     (\<exists>i. Suc i < length names \<and> map_of INVERSE_TOKENS (names ! i) = Some (names ! Suc i))"

definition passes_checks :: "string list \<Rightarrow> string list \<Rightarrow> int \<Rightarrow> int \<Rightarrow> int \<Rightarrow> individual \<Rightarrow> bool" where
  "passes_checks unary binary max_length min_length max_depth ind \<longleftrightarrow>
     int (length (nodes ind)) \<le> max_length \<and> min_length \<le> int (length (nodes ind)) \<and>
     height ind \<le> max_depth \<and> \<not> adjacent_inverses (nodes ind) \<and>
     \<not> spec_check_trig unary binary (nodes ind)"

text \<open>Further scenario data: a length constraint, a child constraint and joint priors.\<close>

definition scenario_length :: length_constraint where
  "scenario_length = \<lparr>lc_library = scenario_library, lc_min = Some 4, lc_max = None\<rparr>"

definition scenario_child :: child_constraint where
  "scenario_child =
     \<lparr>cc_library = scenario_library, cc_children = [3], cc_parents = [3], cc_adj_parents = [1]\<rparr>"

definition scenario_joint :: "prior list \<Rightarrow> joint_prior" where
  "scenario_joint ps = \<lparr>jp_library = scenario_library, jp_L = 4, jp_priors = ps\<rparr>"

text \<open>
  The library of the inverse-pair scenario: \<open>x1\<close>, \<open>exp\<close> and \<open>log\<close>, with the
  constraint that forbids \<open>log\<close> as a child of \<open>exp\<close>, and a batch of one row after the
  token \<open>exp\<close>.
\<close>

definition exp_log_library :: library where
  "exp_log_library =
     \<lparr>tokens = [\<lparr>name = ''x1'', arity = 0\<rparr>, \<lparr>name = ''exp'', arity = 1\<rparr>,
                \<lparr>name = ''log'', arity = 1\<rparr>],
      L = 3, terminal_tokens = [0], unary_tokens = [1, 2], binary_tokens = [],
      parent_adjust = [-1, 0, 1], inverse_tokens = [(1, 2), (2, 1)]\<rparr>"

definition exp_log_constraint :: child_constraint where
  "exp_log_constraint =
     \<lparr>cc_library = exp_log_library, cc_children = [2], cc_parents = [1], cc_adj_parents = [0]\<rparr>"

definition exp_log_actions :: ndarray2 where
  "exp_log_actions = \<lparr>shape0 = 1, shape1 = 1, elems = [[1]]\<rparr>"

text \<open>Token lists and individuals for the validator.\<close>

definition example_unary :: "string list" where
  "example_unary = [''sin'', ''cos'', ''exp'', ''log'']"

definition example_binary :: "string list" where
  "example_binary = [''add'', ''mul'']"

definition example_parent :: individual where
  "example_parent = \<lparr>nodes = [''add'', ''x1'', ''x1''], height = 1\<rparr>"

definition example_nested :: individual where
  "example_nested = \<lparr>nodes = [''sin'', ''cos'', ''x1''], height = 2\<rparr>"

definition example_valid :: individual where
  "example_valid = \<lparr>nodes = [''sin'', ''x1''], height = 1\<rparr>"

section \<open>Masks as arrays of forbidden cells\<close>

lemma length_mask_of [simp]: "length (mask_of n l f) = n"
  by (simp add: mask_of_def)

lemma nth_mask_of [simp]:
  "r < n \<Longrightarrow> mask_of n l f ! r = map (\<lambda>j. if f r j then NInf else Fin 0) [0..<l]"
  by (simp add: mask_of_def)

lemma nth_nth_mask_of:
  "r < n \<Longrightarrow> j < l \<Longrightarrow> mask_of n l f ! r ! j = (if f r j then NInf else Fin 0)"
  by simp

lemma mask_of_cong:
  "(\<And>r j. r < n \<Longrightarrow> j < l \<Longrightarrow> f r j = g r j) \<Longrightarrow> mask_of n l f = mask_of n l g"
  by (simp add: mask_of_def)

lemma zeros2_mask_of: "zeros2 n l = mask_of n l (\<lambda>r j. False)"
  by (simp add: zeros2_def zeros1_def mask_of_def list_eq_iff_nth_eq)

lemma assign_col_mask_of:
  assumes "t < l" "length msk = n"
  shows "assign_col l msk t (mask_of n l f) = Inr (mask_of n l (\<lambda>r j. f r j \<or> (msk ! r \<and> j = t)))"
  using assms
  by (auto simp: assign_col_def list_eq_iff_nth_eq nth_list_update)

lemma assign_cols_mask_of:
  assumes "\<forall>t \<in> set ts. t < l" "length msk = n"
  shows "assign_cols l msk ts (mask_of n l f) = Inr (mask_of n l (\<lambda>r j. f r j \<or> (msk ! r \<and> j \<in> set ts)))"
  using assms
proof (induction ts arbitrary: f)
  case Nil
  then show ?case by simp
next
  case (Cons t ts)
  then show ?case
    by (auto simp: assign_col_mask_of then_do_def intro!: mask_of_cong)
qed

lemma make_constraint_mask_of:
  assumes "\<forall>t \<in> set ts. t < l"
  shows "make_constraint l msk ts = Inr (mask_of (length msk) l (\<lambda>r j. msk ! r \<and> j \<in> set ts))"
  using assign_cols_mask_of[OF assms, of msk "length msk" "\<lambda>r j. False"]
  by (simp add: make_constraint_def zeros2_mask_of)

lemma make_constraint_map:
  assumes "\<forall>t \<in> set ts. t < l"
  shows "make_constraint l (map g ds) ts = Inr (mask_of (length ds) l (\<lambda>r j. g (ds ! r) \<and> j \<in> set ts))"
  using make_constraint_mask_of[OF assms, of "map g ds"]
  by (auto intro!: mask_of_cong)

lemma iadd_mask_of:
  "iadd (mask_of n l f) (mask_of n l g) = Inr (mask_of n l (\<lambda>r j. f r j \<or> g r j))"
  by (simp add: iadd_def row_add_def list_eq_iff_nth_eq)

lemma scenario_library_ok: "library_ok scenario_library"
  by (simp add: library_ok_def scenario_library_def)

section \<open>The length constraint\<close>

text \<open>
  On a library that keeps its invariants and a batch whose \<^verbatim>\<open>dangling\<close> has one entry
  per row, the call returns the mask that forbids a cell exactly when one of the two rules
  does.
\<close>

lemma LengthConstraint_call_mask:
  assumes ok: "library_ok (lc_library self)" and len: "length dangling = shape0 actions"
  shows "LengthConstraint_call self actions parent sibling dangling =
     Inr (mask_of (shape0 actions) (L (lc_library self)) (\<lambda>r j.
       (case lc_max self of None \<Rightarrow> False
        | Some mx \<Rightarrow> mx div 2 \<le> int (shape1 actions) + 1 \<and>
            ((j \<in> set (binary_tokens (lc_library self)) \<and> mx - int (shape1 actions) - 1 \<le> dangling ! r) \<or>
             (j \<in> set (unary_tokens (lc_library self)) \<and> dangling ! r = mx - int (shape1 actions)))) \<or>
       (case lc_min self of None \<Rightarrow> False
        | Some mn \<Rightarrow> int (shape1 actions) + 1 < mn \<and> dangling ! r = 1 \<and>
            j \<in> set (terminal_tokens (lc_library self)))))"
proof -
  let ?lib = "lc_library self"
  have b: "\<forall>t \<in> set (binary_tokens ?lib). t < L ?lib"
    and u: "\<forall>t \<in> set (unary_tokens ?lib). t < L ?lib"
    and t: "\<forall>t \<in> set (terminal_tokens ?lib). t < L ?lib"
    using ok by (simp_all add: library_ok_def)
  show ?thesis
    unfolding LengthConstraint_call_def Let_def zeros_def zeros2_mask_of
    by (cases "lc_max self"; cases "lc_min self")
       (auto simp: then_do_def make_constraint_map[OF b] make_constraint_map[OF u]
          make_constraint_map[OF t] len iadd_mask_of intro!: mask_of_cong)
qed

text \<open>
  C1. Let the length constraint have \<open>min_length = mn\<close>, and let \<open>i\<close> be the index of the
  token chosen last (\<^verbatim>\<open>actions.shape[1] - 1\<close>). In a row with \<open>dangling = 1\<close> at a step
  with \<open>i + 2 < mn\<close>, the step mask is \<open>-inf\<close> at every terminal token. In every other
  row and at every other step, the rule adds nothing at the terminal tokens: the cell is
  the cell \<open>m0\<close> of the mask computed without \<open>min_length\<close>, and that cell is \<open>0\<close>
  unless the maximum-length rule forbids the token (as a binary or a unary token of the
  library). In particular it is \<open>0\<close> when no \<open>max_length\<close> is set, and when the
  terminal token is neither among the binary nor among the unary tokens.
\<close>

theorem length_min_forbids_terminals:
  assumes "library_ok (lc_library self)" and "lc_min self = Some mn"
    and "length dangling = shape0 actions" and "r < shape0 actions"
    and "t \<in> set (terminal_tokens (lc_library self))"
  shows "\<exists>m m0. LengthConstraint_call self actions parent sibling dangling = Inr m \<and>
           LengthConstraint_call (self\<lparr>lc_min := None\<rparr>) actions parent sibling dangling = Inr m0 \<and>
           m ! r ! t = (if (int (shape1 actions) - 1) + 2 < mn \<and> dangling ! r = 1 then NInf
                        else m0 ! r ! t) \<and>
           m0 ! r ! t =
             (if (case lc_max self of
                    None \<Rightarrow> False
                  | Some mx \<Rightarrow>
                      mx div 2 \<le> (int (shape1 actions) - 1) + 2 \<and>
                      ((t \<in> set (binary_tokens (lc_library self)) \<and>
                        mx - ((int (shape1 actions) - 1) + 1) - 1 \<le> dangling ! r) \<or>
                       (t \<in> set (unary_tokens (lc_library self)) \<and>
                        dangling ! r = mx - ((int (shape1 actions) - 1) + 1))))
              then NInf else Fin 0) \<and>
           (lc_max self = None \<or>
            (t \<notin> set (binary_tokens (lc_library self)) \<and>
             t \<notin> set (unary_tokens (lc_library self))) \<longrightarrow>
              m0 ! r ! t = Fin 0 \<and>
              m ! r ! t = (if (int (shape1 actions) - 1) + 2 < mn \<and> dangling ! r = 1 then NInf
                           else Fin 0))"
proof -
  have t: "t < L (lc_library self)"
    using assms(1,5) by (simp add: library_ok_def)
  have ok0: "library_ok (lc_library (self\<lparr>lc_min := None\<rparr>))"
    using assms(1) by simp
  show ?thesis
    unfolding LengthConstraint_call_mask[OF assms(1,3)] LengthConstraint_call_mask[OF ok0 assms(3)]
    using assms(2,4,5) t
    by (auto simp: nth_nth_mask_of split: option.splits)
qed

theorem length_min_forbids_terminals_witness:
  "(\<exists>m. LengthConstraint_call \<lparr>lc_library = scenario_library, lc_min = Some 4, lc_max = None\<rparr>
          scenario_actions [2] [1] [1] = Inr m \<and> m ! 0 ! 0 = NInf) \<and>
   (\<exists>m. LengthConstraint_call \<lparr>lc_library = scenario_library, lc_min = Some 2, lc_max = None\<rparr>
          scenario_actions [2] [1] [1] = Inr m \<and> m ! 0 ! 0 = Fin 0) \<and>
   (\<exists>m. LengthConstraint_call \<lparr>lc_library = scenario_library, lc_min = Some 4, lc_max = None\<rparr>
          scenario_actions [2] [1] [2] = Inr m \<and> m ! 0 ! 0 = Fin 0)"
  using length_min_forbids_terminals[of "\<lparr>lc_library = scenario_library, lc_min = Some 4, lc_max = None\<rparr>"
      4 "[1]" scenario_actions 0 0 "[2]" "[1]"]
    length_min_forbids_terminals[of "\<lparr>lc_library = scenario_library, lc_min = Some 2, lc_max = None\<rparr>"
      2 "[1]" scenario_actions 0 0 "[2]" "[1]"]
    length_min_forbids_terminals[of "\<lparr>lc_library = scenario_library, lc_min = Some 4, lc_max = None\<rparr>"
      4 "[2]" scenario_actions 0 0 "[2]" "[1]"]
    scenario_library_ok
  by (auto simp: scenario_library_def scenario_actions_def)

text \<open>
  C2. Let the length constraint have \<open>max_length = mx\<close>, \<open>i\<close> the index of the token
  chosen last and \<open>remaining = mx - (i + 1)\<close>. At a step with \<open>i + 2 \<ge> mx // 2\<close> the
  step mask is \<open>-inf\<close> at a binary token in the rows with \<open>dangling \<ge> remaining - 1\<close>
  and at a unary token in the rows with \<open>dangling = remaining\<close>; every other cell, and
  every cell at a step with \<open>i + 2 < mx // 2\<close>, is the cell of the mask computed without
  \<open>max_length\<close>, which is \<open>0\<close> outside the terminal tokens.
\<close>

theorem length_max_forbids_operators:
  assumes "library_ok (lc_library self)" and "lc_max self = Some mx"
    and "length dangling = shape0 actions" and "r < shape0 actions"
    and "j < L (lc_library self)"
  shows "\<exists>m m0. LengthConstraint_call self actions parent sibling dangling = Inr m \<and>
           LengthConstraint_call (self\<lparr>lc_max := None\<rparr>) actions parent sibling dangling = Inr m0 \<and>
           m ! r ! j =
             (if mx div 2 \<le> (int (shape1 actions) - 1) + 2 \<and>
                 ((j \<in> set (binary_tokens (lc_library self)) \<and>
                   mx - ((int (shape1 actions) - 1) + 1) - 1 \<le> dangling ! r) \<or>
                  (j \<in> set (unary_tokens (lc_library self)) \<and>
                   dangling ! r = mx - ((int (shape1 actions) - 1) + 1)))
              then NInf else m0 ! r ! j) \<and>
           (j \<notin> set (terminal_tokens (lc_library self)) \<longrightarrow> m0 ! r ! j = Fin 0)"
proof -
  have ok0: "library_ok (lc_library (self\<lparr>lc_max := None\<rparr>))"
    using assms(1) by simp
  show ?thesis
    unfolding LengthConstraint_call_mask[OF assms(1,3)] LengthConstraint_call_mask[OF ok0 assms(3)]
    using assms(2,4,5)
    by (auto simp: nth_nth_mask_of split: option.splits)
qed

theorem length_max_forbids_operators_witness:
  "\<exists>m. LengthConstraint_call \<lparr>lc_library = scenario_library, lc_min = None, lc_max = Some 4\<rparr>
          scenario_actions [2] [1] [1] = Inr m \<and> m ! 0 ! 2 = NInf \<and> m ! 0 ! 3 = Fin 0"
  using length_max_forbids_operators[of "\<lparr>lc_library = scenario_library, lc_min = None, lc_max = Some 4\<rparr>"
      4 "[1]" scenario_actions 0 2 "[2]" "[1]"]
    length_max_forbids_operators[of "\<lparr>lc_library = scenario_library, lc_min = None, lc_max = Some 4\<rparr>"
      4 "[1]" scenario_actions 0 3 "[2]" "[1]"] scenario_library_ok
  by (auto simp: scenario_library_def scenario_actions_def)

section \<open>The child constraint\<close>

lemma tokenize_Inr:
  "tokenize lib ts = Inr r \<Longrightarrow> (\<forall>t \<in> set ts. t < length (tokens lib)) \<and> r = map (\<lambda>t. tokens lib ! t) ts"
  by (induction ts arbitrary: r) (auto simp: then_do_def split: if_splits sum.splits)

lemma index_list_Inr:
  "index_list tab ps = Inr r \<Longrightarrow> r = map (\<lambda>p. tab ! p) ps"
  by (induction ps arbitrary: r) (auto simp: then_do_def split: if_splits sum.splits)

lemma ChildConstraint_init_Inr:
  assumes "ChildConstraint_init lib children parents = Inr self"
  shows "cc_library self = lib \<and> cc_children self = children \<and> cc_parents self = parents \<and>
         cc_adj_parents self = map (\<lambda>p. parent_adjust lib ! p) parents \<and>
         (\<forall>c \<in> set children. c < length (tokens lib)) \<and>
         (\<forall>p \<in> set parents. p < length (tokens lib)) \<and> parents \<noteq> []"
  using assms
  by (auto simp: ChildConstraint_init_def actionize_def then_do_def
      split: sum.splits if_splits dest!: tokenize_Inr index_list_Inr)

lemma child_loop_mask_of:
  assumes "\<forall>(c, a) \<in> set ps. c < l" "length parent = n"
  shows "child_loop l parent ps (mask_of n l f) =
           Inr (mask_of n l (\<lambda>r j. f r j \<or> (\<exists>(c, a) \<in> set ps. parent ! r = a \<and> j = c)))"
  using assms
proof (induction ps arbitrary: f)
  case Nil
  then show ?case by simp
next
  case (Cons p ps)
  obtain c a where p: "p = (c, a)" by (cases p)
  have c: "\<forall>t \<in> set [c]. t < l" using Cons.prems p by simp
  let ?g = "\<lambda>r j. f r j \<or> (parent ! r = a \<and> j \<in> set [c])"
  have n: "length parent = n" using Cons.prems by simp
  have step: "child_loop l parent (p # ps) (mask_of n l f) = child_loop l parent ps (mask_of n l ?g)"
    by (simp add: p then_do_def make_constraint_map[OF c] iadd_mask_of n)
  have ih: "child_loop l parent ps (mask_of n l ?g) =
      Inr (mask_of n l (\<lambda>r j. ?g r j \<or> (\<exists>(c, a) \<in> set ps. parent ! r = a \<and> j = c)))"
    using Cons.prems by (intro Cons.IH) auto
  have eq: "mask_of n l (\<lambda>r j. ?g r j \<or> (\<exists>(c, a) \<in> set ps. parent ! r = a \<and> j = c)) =
      mask_of n l (\<lambda>r j. f r j \<or> (\<exists>(c, a) \<in> set (p # ps). parent ! r = a \<and> j = c))"
    by (rule mask_of_cong) (auto simp: p)
  show ?case
    unfolding step ih eq ..
qed

text \<open>
  C3. Let a child constraint be constructed from the lists \<open>children\<close> and \<open>parents\<close>.
  On a batch whose \<^verbatim>\<open>parent\<close> has one entry per row, the step mask is \<open>-inf\<close> at
  column \<open>j\<close> of row \<open>r\<close> exactly when some pair \<open>k\<close> has \<open>children[k] = j\<close> and the
  row's parent equals the adjusted index of \<open>parents[k]\<close>; every other cell is \<open>0\<close>.
  With the single pair (\<open>log\<close>, \<open>exp\<close>) and a row whose parent is \<open>exp\<close>, only the
  column of \<open>log\<close> is \<open>-inf\<close>.
\<close>

theorem child_forbids_pairs:
  assumes "library_ok lib" and "ChildConstraint_init lib children parents = Inr self"
    and "length parent = shape0 actions" and "r < shape0 actions" and "j < L lib"
  shows "\<exists>m. ChildConstraint_call self actions parent sibling dangling = Inr m \<and>
           m ! r ! j =
             (if \<exists>k. k < length children \<and> k < length parents \<and> children ! k = j \<and>
                      parent ! r = parent_adjust lib ! (parents ! k)
              then NInf else Fin 0)"
proof -
  note init = ChildConstraint_init_Inr[OF assms(2)]
  have lt: "\<forall>(c, a) \<in> set (zip children (cc_adj_parents self)). c < L lib"
    using init assms(1) by (auto simp: library_ok_def dest: set_zip_leftD)
  have ex: "(\<exists>(c, a) \<in> set (zip children (cc_adj_parents self)). parent ! r = a \<and> j = c) \<longleftrightarrow>
            (\<exists>k. k < length children \<and> k < length parents \<and> children ! k = j \<and>
                  parent ! r = parent_adjust lib ! (parents ! k))"
    using init by (auto simp: set_zip)
  have "ChildConstraint_call self actions parent sibling dangling =
          Inr (mask_of (shape0 actions) (L lib)
            (\<lambda>r j. False \<or> (\<exists>(c, a) \<in> set (zip children (cc_adj_parents self)). parent ! r = a \<and> j = c)))"
    unfolding ChildConstraint_call_def zeros_def zeros2_mask_of
    using init child_loop_mask_of[OF lt assms(3)] by simp
  then show ?thesis
    using assms(4,5) ex by (simp add: nth_nth_mask_of)
qed

lemma exp_log_library_ok: "library_ok exp_log_library"
  by (simp add: library_ok_def exp_log_library_def)

lemma exp_log_init: "ChildConstraint_init exp_log_library [2] [1] = Inr exp_log_constraint"
  by (simp add: ChildConstraint_init_def actionize_def then_do_def exp_log_library_def
      exp_log_constraint_def)

theorem child_forbids_pairs_witness:
  "\<exists>m. ChildConstraint_call exp_log_constraint exp_log_actions [0] [3] [1] = Inr m \<and>
      m ! 0 ! 0 = Fin 0 \<and> m ! 0 ! 1 = Fin 0 \<and> m ! 0 ! 2 = NInf"
  using child_forbids_pairs[OF exp_log_library_ok exp_log_init, of "[0]" exp_log_actions 0 0 "[3]" "[1]"]
    child_forbids_pairs[OF exp_log_library_ok exp_log_init, of "[0]" exp_log_actions 0 1 "[3]" "[1]"]
    child_forbids_pairs[OF exp_log_library_ok exp_log_init, of "[0]" exp_log_actions 0 2 "[3]" "[1]"]
  by (auto simp: exp_log_actions_def exp_log_library_def)

text \<open>
  C8. The constructor accepts a terminal parent: in the library \<open>x1\<close>, \<open>exp\<close>, \<open>log\<close>
  the token \<open>x1\<close> has arity 0, and the constraint with \<open>x1\<close> as the parent of \<open>log\<close>
  is constructed. The asserted list of arity tests is not empty, hence true.
\<close>

theorem terminal_parent_accepted:
  "arity (tokens exp_log_library ! 0) = 0 \<and>
   ChildConstraint_init exp_log_library [2] [0] =
     Inr \<lparr>cc_library = exp_log_library, cc_children = [2], cc_parents = [0], cc_adj_parents = [-1]\<rparr>"
  by (simp add: ChildConstraint_init_def actionize_def then_do_def exp_log_library_def)

section \<open>The constraints without a policy\<close>

text \<open>
  C9. Every call of a repeat constraint and of a descendant constraint raises
  NotImplementedError, whatever the constraint and the batch; in particular the result is
  not the all-zero mask.
\<close>

theorem unsupported_constraints_raise:
  "RepeatConstraint_call rc actions parent sibling dangling = Inl NotImplementedError \<and>
   DescendantConstraint_call dc actions parent sibling dangling = Inl NotImplementedError \<and>
   RepeatConstraint_call rc actions parent sibling dangling \<noteq> Inr (zeros (L (rc_library rc)) actions) \<and>
   DescendantConstraint_call dc actions parent sibling dangling \<noteq> Inr (zeros (L (dc_library dc)) actions)"
  by (simp add: RepeatConstraint_call_def DescendantConstraint_call_def)

section \<open>Masks hold \<open>0\<close> and \<open>-inf\<close> only\<close>

lemma then_do_Inr: "then_do m f = Inr y \<Longrightarrow> \<exists>x. m = Inr x \<and> f x = Inr y"
  by (cases m) (simp_all add: then_do_def)

lemma hard_fadd: "hard_cell x \<Longrightarrow> hard_cell y \<Longrightarrow> hard_cell (fadd x y)"
  by (auto simp: hard_cell_def)

lemma list_all_map2:
  assumes "list_all P xs" "list_all Q ys" "\<And>x y. P x \<Longrightarrow> Q y \<Longrightarrow> R (f x y)"
  shows "list_all R (map2 f xs ys)"
  using assms by (auto simp: list_all_iff elim!: in_set_zipE)

lemma hard_row_add: "hard_row xs \<Longrightarrow> hard_row ys \<Longrightarrow> hard_row (row_add xs ys)"
  unfolding hard_row_def row_add_def by (erule (1) list_all_map2) (rule hard_fadd)

lemma hard_zeros1: "hard_row (zeros1 l)"
  by (simp add: hard_row_def zeros1_def list_all_iff hard_cell_def)

lemma hard_zeros2: "hard_mask (zeros2 n l)"
  by (simp add: hard_mask_def zeros2_def list_all_iff hard_zeros1)

lemma hard_update: "hard_row xs \<Longrightarrow> hard_row (xs[t := NInf])"
  by (auto simp: hard_row_def list_all_iff hard_cell_def dest!: set_update_subset_insert[THEN subsetD])

lemma hard_iadd:
  assumes "iadd a b = Inr m" "hard_mask a" "hard_mask b"
  shows "hard_mask m"
proof (cases "length b = length a")
  case True
  then have "m = map2 row_add a b" using assms(1) by (simp add: iadd_def)
  then show ?thesis
    using assms(2,3) unfolding hard_mask_def
    by (auto intro: list_all_map2 hard_row_add)
next
  case False
  then have m: "m = map (\<lambda>r. row_add r (hd b)) a" and b: "length b = 1"
    using assms(1) by (auto simp: iadd_def split: if_splits)
  from b have "hd b \<in> set b" by (cases b) auto
  then show ?thesis
    using assms(2,3) by (auto simp: m hard_mask_def list_all_iff intro!: hard_row_add)
qed

lemma hard_iadd1:
  assumes "iadd1 a b = Inr v" "hard_row a" "hard_row b"
  shows "hard_row v"
proof (cases "length b = length a")
  case True
  then show ?thesis using assms by (auto simp: iadd1_def hard_row_add)
next
  case False
  then have v: "v = map (\<lambda>x. fadd x (hd b)) a" and b: "length b = 1"
    using assms(1) by (auto simp: iadd1_def split: if_splits)
  from b have "hd b \<in> set b" by (cases b) auto
  then show ?thesis
    using assms(2,3) by (auto simp: v hard_row_def list_all_iff intro!: hard_fadd)
qed

lemma hard_assign_col:
  assumes "assign_col l msk t prior = Inr m" "hard_mask prior"
  shows "hard_mask m"
proof -
  have "m = map2 (\<lambda>b row. if b then row[t := NInf] else row) msk prior"
    using assms(1) by (auto simp: assign_col_def split: if_splits)
  then show ?thesis
    using assms(2) unfolding hard_mask_def
    by (auto simp: list_all_iff elim!: in_set_zipE intro!: hard_update)
qed

lemma hard_assign_cols:
  "assign_cols l msk ts prior = Inr m \<Longrightarrow> hard_mask prior \<Longrightarrow> hard_mask m"
proof (induction ts arbitrary: prior)
  case Nil
  then show ?case by simp
next
  case (Cons t ts)
  from Cons.prems(1) obtain p where "assign_col l msk t prior = Inr p" "assign_cols l msk ts p = Inr m"
    by (auto dest!: then_do_Inr)
  then show ?case using Cons.IH Cons.prems(2) hard_assign_col by blast
qed

lemma hard_make_constraint: "make_constraint l msk ts = Inr m \<Longrightarrow> hard_mask m"
  unfolding make_constraint_def by (erule hard_assign_cols) (rule hard_zeros2)

lemma hard_add_constraint:
  assumes "then_do (make_constraint l msk ts) (\<lambda>c. iadd prior c) = Inr m" "hard_mask prior"
  shows "hard_mask m"
  using assms by (auto dest!: then_do_Inr intro: hard_iadd hard_make_constraint)

lemma hard_LengthConstraint_call:
  assumes "LengthConstraint_call self actions parent sibling dangling = Inr m"
  shows "hard_mask m"
proof -
  let ?l = "L (lc_library self)"
  from assms obtain p2 where
    p2: "(case lc_max self of
            Some mx \<Rightarrow>
              if int (shape1 actions) - 1 + 2 \<ge> mx div 2 then
                (let remaining = mx - (int (shape1 actions) - 1 + 1) in
                 then_do (make_constraint ?l (map (\<lambda>d. d \<ge> remaining - 1) dangling) (binary_tokens (lc_library self)))
                   (\<lambda>c1. then_do (iadd (zeros ?l actions) c1)
                   (\<lambda>prior1. then_do (make_constraint ?l (map (\<lambda>d. d = remaining) dangling) (unary_tokens (lc_library self)))
                   (\<lambda>c2. iadd prior1 c2))))
              else Inr (zeros ?l actions)
          | None \<Rightarrow> Inr (zeros ?l actions)) = Inr p2"
    and m: "(case lc_min self of
                Some mn \<Rightarrow>
                  if int (shape1 actions) - 1 + 2 < mn then
                    then_do (make_constraint ?l (map (\<lambda>d. d = 1) dangling) (terminal_tokens (lc_library self)))
                      (\<lambda>c3. iadd p2 c3)
                  else Inr p2
              | None \<Rightarrow> Inr p2) = Inr m"
    unfolding LengthConstraint_call_def Let_def by (auto dest!: then_do_Inr)
  have z: "hard_mask (zeros ?l actions)" by (simp add: zeros_def hard_zeros2)
  have "hard_mask p2"
    using p2 z
    by (auto simp: Let_def split: option.splits if_splits dest!: then_do_Inr)
       (meson hard_iadd hard_make_constraint)
  then show ?thesis
    using m by (auto split: option.splits if_splits intro: hard_add_constraint)
qed

lemma hard_child_loop:
  "child_loop l parent ps prior = Inr m \<Longrightarrow> hard_mask prior \<Longrightarrow> hard_mask m"
proof (induction ps arbitrary: prior)
  case Nil
  then show ?case by simp
next
  case (Cons p ps)
  obtain c a where p: "p = (c, a)" by (cases p)
  from Cons.prems(1) obtain c1 p1 where
    "make_constraint l (map (\<lambda>x. x = a) parent) [c] = Inr c1" "iadd prior c1 = Inr p1"
    "child_loop l parent ps p1 = Inr m"
    unfolding p by (auto dest!: then_do_Inr)
  then show ?case
    using Cons.IH Cons.prems(2) hard_iadd hard_make_constraint by blast
qed

lemma hard_prior_call:
  "prior_call p actions parent sibling dangling = Inr m \<Longrightarrow> hard_mask m"
proof (cases p)
  case (Length c)
  assume "prior_call p actions parent sibling dangling = Inr m"
  then show ?thesis using Length by (simp add: hard_LengthConstraint_call)
next
  case (Child c)
  assume "prior_call p actions parent sibling dangling = Inr m"
  then show ?thesis
    using Child hard_child_loop[of _ parent _ _ m]
    by (simp add: ChildConstraint_call_def zeros_def hard_zeros2)
qed (simp_all add: DescendantConstraint_call_def RepeatConstraint_call_def)

lemma hard_assign1: "assign1 ts prior = Inr v \<Longrightarrow> hard_row prior \<Longrightarrow> hard_row v"
  by (induction ts arbitrary: prior) (auto split: if_splits intro: hard_update)

lemma hard_prior_initial_prior: "prior_initial_prior p = Inr v \<Longrightarrow> hard_row v"
  by (cases p)
     (auto simp: LengthConstraint_initial_prior_def Prior_initial_prior_def hard_zeros1
       intro: hard_assign1)

lemma hard_initial_loop:
  "initial_loop ps combined = Inr v \<Longrightarrow> hard_row combined \<Longrightarrow> hard_row v"
proof (induction ps arbitrary: combined)
  case Nil
  then show ?case by simp
next
  case (Cons p ps)
  from Cons.prems(1) obtain w c where
    "prior_initial_prior p = Inr w" "iadd1 combined w = Inr c" "initial_loop ps c = Inr v"
    by (auto dest!: then_do_Inr)
  then show ?case
    using Cons.IH Cons.prems(2) hard_iadd1 hard_prior_initial_prior by blast
qed

lemma hard_ind_loop:
  "ind_loop z ps actions parent sibling dangling = Inr ms \<Longrightarrow> hard_mask z \<Longrightarrow> list_all hard_mask ms"
proof (induction ps arbitrary: ms)
  case Nil
  then show ?case by simp
next
  case (Cons p ps)
  from Cons.prems(1) obtain m x r where
    "prior_call p actions parent sibling dangling = Inr m" "iadd z m = Inr x"
    "ind_loop z ps actions parent sibling dangling = Inr r" "ms = x # r"
    by (auto dest!: then_do_Inr)
  then show ?case
    using Cons.IH Cons.prems(2) hard_iadd hard_prior_call by auto
qed

lemma hard_accum_add: "hard_accum a \<Longrightarrow> hard_mask m \<Longrightarrow> hard_mask (accum_add a m)"
proof (cases a)
  case (Scalar s)
  assume "hard_accum a" "hard_mask m"
  then show ?thesis
    using Scalar by (auto simp: hard_mask_def hard_row_def list_all_iff intro!: hard_fadd)
next
  case (Array b)
  assume "hard_accum a" "hard_mask m"
  then have "list_all hard_row b" "list_all hard_row m"
    using Array by (simp_all add: hard_mask_def)
  then have "list_all hard_row (map2 row_add b m)"
    by (rule list_all_map2) (rule hard_row_add)
  then show ?thesis
    using Array by (simp add: hard_mask_def)
qed

lemma hard_foldl:
  "hard_accum a \<Longrightarrow> list_all hard_mask ms \<Longrightarrow>
   hard_accum (foldl (\<lambda>a m. Array (accum_add a m)) a ms)"
  by (induction ms arbitrary: a) (auto simp: hard_accum_add)

lemma hard_JointPrior_call:
  assumes "JointPrior_call self actions parent sibling dangling = Inr m"
  shows "hard_mask m"
proof -
  let ?z = "zeros2 (shape0 actions) (jp_L self)"
  from assms obtain ms where
    ms: "ind_loop ?z (jp_priors self) actions parent sibling dangling = Inr ms"
    and m: "m = accum_add (py_sum ms) ?z"
    unfolding JointPrior_call_def Let_def by (auto dest!: then_do_Inr)
  have "list_all hard_mask ms"
    using ms by (rule hard_ind_loop) (rule hard_zeros2)
  then have "hard_accum (py_sum ms)"
    unfolding py_sum_def by (intro hard_foldl) (simp_all add: hard_cell_def)
  then show ?thesis
    unfolding m by (rule hard_accum_add) (rule hard_zeros2)
qed

lemma hard_JointPrior_initial_prior:
  "JointPrior_initial_prior self = Inr v \<Longrightarrow> hard_row v"
  unfolding JointPrior_initial_prior_def by (erule hard_initial_loop) (rule hard_zeros1)

lemma scenario_double_length_call:
  "JointPrior_call (scenario_joint [Length scenario_length, Length scenario_length])
     scenario_actions [1] [1] [1] = Inr [[NInf, NInf, Fin 0, Fin 0]]"
  by code_simp

text \<open>
  C5. Whatever a constraint returns as its step mask or its initial mask, and whatever
  the joint prior returns as the summed step mask or initial mask, every cell is \<open>0\<close> or
  \<open>-inf\<close>; and the sum of two such cells is such a cell again, so that no number of
  \<open>-inf\<close> contributions gives a finite negative value.
\<close>

theorem masks_are_hard:
  "(prior_call p actions parent sibling dangling = Inr m \<longrightarrow> hard_mask m) \<and>
   (prior_initial_prior p = Inr v \<longrightarrow> hard_row v) \<and>
   (JointPrior_call jp actions parent sibling dangling = Inr jm \<longrightarrow> hard_mask jm) \<and>
   (JointPrior_initial_prior jp = Inr jv \<longrightarrow> hard_row jv) \<and>
   (hard_cell x \<and> hard_cell y \<longrightarrow> hard_cell (fadd x y))"
  by (auto intro: hard_prior_call hard_prior_initial_prior hard_JointPrior_call
      hard_JointPrior_initial_prior hard_fadd)

theorem masks_are_hard_witness:
  "JointPrior_call (scenario_joint [Length scenario_length, Length scenario_length])
     scenario_actions [1] [1] [1] = Inr [[NInf, NInf, Fin 0, Fin 0]] \<and>
   hard_mask [[NInf, NInf, Fin 0, Fin 0]] \<and> hard_cell (fadd NInf NInf)"
  using masks_are_hard[where jp = "scenario_joint [Length scenario_length, Length scenario_length]"
      and actions = scenario_actions and parent = "[1]" and sibling = "[1]" and dangling = "[1]"
      and jm = "[[NInf, NInf, Fin 0, Fin 0]]" and x = NInf and y = NInf]
    scenario_double_length_call
  by (simp add: hard_cell_def)

section \<open>The joint prior\<close>

lemma prior_call_cases:
  assumes "library_ok (prior_library p)" "prior_ok p"
    and "length parent = shape0 actions" "length dangling = shape0 actions"
  shows "prior_call p actions parent sibling dangling = Inl NotImplementedError \<or>
         (\<exists>g. prior_call p actions parent sibling dangling =
                Inr (mask_of (shape0 actions) (L (prior_library p)) g))"
proof (cases p)
  case (Length c)
  then show ?thesis
    using assms LengthConstraint_call_mask[of c dangling actions parent sibling] by auto
next
  case (Child c)
  have "\<forall>(x, a) \<in> set (zip (cc_children c) (cc_adj_parents c)). x < L (cc_library c)"
    using assms(2) Child by (auto simp: list_all_iff dest: set_zip_leftD)
  from child_loop_mask_of[OF this assms(3), of "\<lambda>r j. False"] show ?thesis
    using Child by (auto simp: ChildConstraint_call_def zeros_def zeros2_mask_of)
qed (simp_all add: DescendantConstraint_call_def RepeatConstraint_call_def)

lemma iadd_zero_mask_of:
  "iadd (zeros2 n l) (mask_of n l g) = Inr (mask_of n l g)"
  by (simp add: zeros2_mask_of iadd_mask_of)

lemma ind_loop_masks:
  assumes "library_ok lib" "\<forall>p \<in> set ps. prior_library p = lib \<and> prior_ok p"
    and "length parent = shape0 actions" "length dangling = shape0 actions"
  shows "ind_loop (zeros2 (shape0 actions) (L lib)) ps actions parent sibling dangling =
     (if \<exists>p \<in> set ps. prior_call p actions parent sibling dangling = Inl NotImplementedError
      then Inl NotImplementedError
      else Inr (map (\<lambda>p. projr (prior_call p actions parent sibling dangling)) ps))"
  using assms(2)
proof (induction ps)
  case Nil
  then show ?case by simp
next
  case (Cons p ps)
  have ih: "ind_loop (zeros2 (shape0 actions) (L lib)) ps actions parent sibling dangling =
     (if \<exists>p \<in> set ps. prior_call p actions parent sibling dangling = Inl NotImplementedError
      then Inl NotImplementedError
      else Inr (map (\<lambda>p. projr (prior_call p actions parent sibling dangling)) ps))"
    using Cons by simp
  have p: "library_ok (prior_library p)" "prior_ok p" "prior_library p = lib"
    using Cons.prems assms(1) by simp_all
  from prior_call_cases[OF p(1,2) assms(3,4), of sibling] show ?case
  proof
    assume "prior_call p actions parent sibling dangling = Inl NotImplementedError"
    then show ?thesis by (simp add: then_do_def)
  next
    assume "\<exists>g. prior_call p actions parent sibling dangling =
                Inr (mask_of (shape0 actions) (L (prior_library p)) g)"
    then obtain g where "prior_call p actions parent sibling dangling =
                Inr (mask_of (shape0 actions) (L lib) g)"
      using p(3) by auto
    then show ?thesis
      by (simp add: then_do_def iadd_zero_mask_of ih)
  qed
qed

lemma row_add_cells:
  "row_add (map (\<lambda>j. if f j then NInf else Fin 0) [0..<l]) (map (\<lambda>j. if g j then NInf else Fin 0) [0..<l]) =
   map (\<lambda>j. if f j \<or> g j then NInf else Fin 0) [0..<l]"
  by (simp add: row_add_def list_eq_iff_nth_eq)

lemma accum_add_Array_mask_of:
  "accum_add (Array (mask_of n l f)) (mask_of n l g) = mask_of n l (\<lambda>r j. f r j \<or> g r j)"
  by (simp add: list_eq_iff_nth_eq row_add_cells)

lemma accum_add_Scalar_mask_of:
  "accum_add (Scalar (Fin 0)) (mask_of n l g) = mask_of n l g"
  by (simp add: mask_of_def)

lemma foldl_masks:
  "foldl (\<lambda>a m. Array (accum_add a m)) (Array (mask_of n l f)) (map (\<lambda>p. mask_of n l (G p)) ps) =
   Array (mask_of n l (\<lambda>r j. f r j \<or> (\<exists>p \<in> set ps. G p r j)))"
proof (induction ps arbitrary: f)
  case Nil
  then show ?case by simp
next
  case (Cons p ps)
  have "mask_of n l (\<lambda>r j. (f r j \<or> G p r j) \<or> (\<exists>p \<in> set ps. G p r j)) =
        mask_of n l (\<lambda>r j. f r j \<or> (\<exists>q \<in> set (p # ps). G q r j))"
    by (rule mask_of_cong) auto
  then show ?case
    by (simp add: accum_add_Array_mask_of Cons.IH del: accum_add.simps)
qed

lemma sum_masks:
  "accum_add (py_sum (map (\<lambda>p. mask_of n l (G p)) ps)) (zeros2 n l) =
   mask_of n l (\<lambda>r j. \<exists>p \<in> set ps. G p r j)"
proof (cases ps)
  case Nil
  then show ?thesis
    by (simp add: py_sum_def zeros2_mask_of accum_add_Scalar_mask_of del: accum_add.simps)
next
  case (Cons p qs)
  have "mask_of n l (\<lambda>r j. (G p r j \<or> (\<exists>q \<in> set qs. G q r j)) \<or> False) =
        mask_of n l (\<lambda>r j. \<exists>q \<in> set (p # qs). G q r j)"
    by (rule mask_of_cong) auto
  then show ?thesis
    by (simp add: Cons py_sum_def accum_add_Scalar_mask_of foldl_masks zeros2_mask_of
        accum_add_Array_mask_of del: accum_add.simps)
qed

lemma JointPrior_init_Inr:
  "JointPrior_init lib ps = Inr jp \<Longrightarrow>
     jp_library jp = lib \<and> jp_L jp = L lib \<and> jp_priors jp = ps \<and> (\<forall>p \<in> set ps. prior_library p = lib)"
  by (auto simp: JointPrior_init_def list_all_iff split: if_splits)

text \<open>The joint mask forbids a cell exactly when one of the priors does.\<close>

lemma JointPrior_call_mask:
  assumes "library_ok lib" "JointPrior_init lib ps = Inr jp" "list_all prior_ok ps"
    and "length parent = shape0 actions" "length dangling = shape0 actions"
  shows "JointPrior_call jp actions parent sibling dangling =
     (if \<exists>p \<in> set ps. prior_call p actions parent sibling dangling = Inl NotImplementedError
      then Inl NotImplementedError
      else Inr (mask_of (shape0 actions) (L lib) (\<lambda>r j.
             \<exists>p \<in> set ps. \<exists>m. prior_call p actions parent sibling dangling = Inr m \<and> m ! r ! j = NInf)))"
proof (cases "\<exists>p \<in> set ps. prior_call p actions parent sibling dangling = Inl NotImplementedError")
  case True
  note init = JointPrior_init_Inr[OF assms(2)]
  have ps: "\<forall>p \<in> set ps. prior_library p = lib \<and> prior_ok p"
    using init assms(3) by (simp add: list_all_iff)
  show ?thesis
    using True init
    by (simp add: JointPrior_call_def ind_loop_masks[OF assms(1) ps assms(4,5)] then_do_def)
next
  case False
  note init = JointPrior_init_Inr[OF assms(2)]
  have ps: "\<forall>p \<in> set ps. prior_library p = lib \<and> prior_ok p"
    using init assms(3) by (simp add: list_all_iff)
  let ?call = "\<lambda>p. prior_call p actions parent sibling dangling"
  let ?n = "shape0 actions"
  have "\<forall>p \<in> set ps. \<exists>g. ?call p = Inr (mask_of ?n (L lib) g)"
  proof
    fix p assume p: "p \<in> set ps"
    then have "library_ok (prior_library p)" "prior_ok p" "prior_library p = lib"
      using ps assms(1) by simp_all
    from prior_call_cases[OF this(1,2) assms(4,5), of sibling] False p this(3)
    show "\<exists>g. ?call p = Inr (mask_of ?n (L lib) g)" by auto
  qed
  then obtain G where G: "\<forall>p \<in> set ps. ?call p = Inr (mask_of ?n (L lib) (G p))"
    by metis
  have map: "map (\<lambda>p. projr (?call p)) ps = map (\<lambda>p. mask_of ?n (L lib) (G p)) ps"
    using G by simp
  have eq: "mask_of ?n (L lib) (\<lambda>r j. \<exists>p \<in> set ps. G p r j) =
            mask_of ?n (L lib) (\<lambda>r j. \<exists>p \<in> set ps. \<exists>m. ?call p = Inr m \<and> m ! r ! j = NInf)"
    by (rule mask_of_cong) (use G in \<open>auto simp: nth_nth_mask_of\<close>)
  show ?thesis
    using False init
    by (simp add: JointPrior_call_def ind_loop_masks[OF assms(1) ps assms(4,5)] then_do_def
        map sum_masks eq)
qed

lemma length_row_of [simp]: "length (row_of l f) = l"
  by (simp add: row_of_def)

lemma nth_row_of [simp]: "j < l \<Longrightarrow> row_of l f ! j = (if f j then NInf else Fin 0)"
  by (simp add: row_of_def)

lemma row_of_cong: "(\<And>j. j < l \<Longrightarrow> f j = g j) \<Longrightarrow> row_of l f = row_of l g"
  by (simp add: row_of_def)

lemma zeros1_row_of: "zeros1 l = row_of l (\<lambda>j. False)"
  by (simp add: zeros1_def row_of_def list_eq_iff_nth_eq)

lemma assign1_row_of:
  assumes "\<forall>t \<in> set ts. t < l"
  shows "assign1 ts (row_of l f) = Inr (row_of l (\<lambda>j. f j \<or> j \<in> set ts))"
  using assms
proof (induction ts arbitrary: f)
  case Nil
  then show ?case by simp
next
  case (Cons t ts)
  have "(row_of l f)[t := NInf] = row_of l (\<lambda>j. f j \<or> j = t)"
    using Cons.prems by (auto simp: list_eq_iff_nth_eq nth_list_update)
  moreover have "row_of l (\<lambda>j. (f j \<or> j = t) \<or> j \<in> set ts) = row_of l (\<lambda>j. f j \<or> j \<in> set (t # ts))"
    by (rule row_of_cong) auto
  ultimately show ?case
    using Cons by simp
qed

lemma iadd1_row_of: "iadd1 (row_of l f) (row_of l g) = Inr (row_of l (\<lambda>j. f j \<or> g j))"
  by (simp add: iadd1_def row_add_def list_eq_iff_nth_eq)

lemma prior_initial_prior_row_of:
  assumes "library_ok (prior_library p)"
  shows "prior_initial_prior p =
           Inr (row_of (L (prior_library p))
                 (\<lambda>j. (\<exists>c. p = Length c) \<and> j \<in> set (terminal_tokens (prior_library p))))"
proof (cases p)
  case (Length c)
  have "\<forall>t \<in> set (terminal_tokens (lc_library c)). t < L (lc_library c)"
    using assms Length by (simp add: library_ok_def)
  from assign1_row_of[OF this, of "\<lambda>j. False"] show ?thesis
    using Length
    by (simp add: LengthConstraint_initial_prior_def Prior_initial_prior_def zeros1_row_of)
qed (simp_all add: Prior_initial_prior_def zeros1_row_of)

lemma initial_loop_row_of:
  assumes "library_ok lib" "\<forall>p \<in> set ps. prior_library p = lib"
  shows "initial_loop ps (row_of (L lib) f) =
           Inr (row_of (L lib)
                 (\<lambda>j. f j \<or> ((\<exists>c. Length c \<in> set ps) \<and> j \<in> set (terminal_tokens lib))))"
  using assms(2)
proof (induction ps arbitrary: f)
  case Nil
  then show ?case by simp
next
  case (Cons p ps)
  let ?g = "\<lambda>j. f j \<or> ((\<exists>c. p = Length c) \<and> j \<in> set (terminal_tokens lib))"
  have p: "prior_library p = lib" using Cons.prems by simp
  have step: "initial_loop (p # ps) (row_of (L lib) f) = initial_loop ps (row_of (L lib) ?g)"
    using prior_initial_prior_row_of[of p] assms(1) p
    by (simp add: then_do_def iadd1_row_of)
  have ih: "initial_loop ps (row_of (L lib) ?g) =
      Inr (row_of (L lib) (\<lambda>j. ?g j \<or> ((\<exists>c. Length c \<in> set ps) \<and> j \<in> set (terminal_tokens lib))))"
    using Cons.prems by (intro Cons.IH) simp
  have eq: "row_of (L lib) (\<lambda>j. ?g j \<or> ((\<exists>c. Length c \<in> set ps) \<and> j \<in> set (terminal_tokens lib))) =
      row_of (L lib) (\<lambda>j. f j \<or> ((\<exists>c. Length c \<in> set (p # ps)) \<and> j \<in> set (terminal_tokens lib)))"
    by (rule row_of_cong) auto
  show ?case
    unfolding step ih eq ..
qed

lemma JointPrior_initial_prior_row_of:
  assumes "library_ok lib" "JointPrior_init lib ps = Inr jp"
  shows "JointPrior_initial_prior jp =
           Inr (row_of (L lib) (\<lambda>j. (\<exists>c. Length c \<in> set ps) \<and> j \<in> set (terminal_tokens lib)))"
  using JointPrior_init_Inr[OF assms(2)] initial_loop_row_of[OF assms(1), of ps "\<lambda>j. False"]
  by (simp add: JointPrior_initial_prior_def zeros1_row_of)

lemma scenario_joint_init:
  "JointPrior_init scenario_library [Length scenario_length, Child scenario_child] =
     Inr (scenario_joint [Length scenario_length, Child scenario_child])"
  "JointPrior_init scenario_library [Child scenario_child, Length scenario_length] =
     Inr (scenario_joint [Child scenario_child, Length scenario_length])"
  by (simp_all add: JointPrior_init_def scenario_joint_def scenario_length_def scenario_child_def
      scenario_library_def)

lemma ChildConstraint_init_ok:
  assumes "library_ok lib" "ChildConstraint_init lib children parents = Inr self"
  shows "prior_ok (Child self)"
  using ChildConstraint_init_Inr[OF assms(2)] assms(1)
  by (simp add: list_all_iff library_ok_def)

text \<open>
  C4. Let two joint priors be built over one library from two orderings of the same
  constraints, the library keeping its invariants, the child constraints referring to
  token ids, and the batch arrays \<^verbatim>\<open>parent\<close> and \<^verbatim>\<open>dangling\<close> having one entry per
  row. Then both return the same step mask (or raise the same error) and the same initial
  mask.
\<close>

theorem joint_prior_commutes:
  assumes "library_ok lib" and "JointPrior_init lib ps = Inr jp" and "JointPrior_init lib qs = Inr jq"
    and "mset ps = mset qs" and "list_all prior_ok ps"
    and "length parent = shape0 actions" and "length dangling = shape0 actions"
  shows "JointPrior_call jp actions parent sibling dangling =
           JointPrior_call jq actions parent sibling dangling \<and>
         JointPrior_initial_prior jp = JointPrior_initial_prior jq"
proof -
  have s: "set ps = set qs" using assms(4) by (rule mset_eq_setD)
  then have q: "list_all prior_ok qs" using assms(5) by (simp add: list_all_iff)
  show ?thesis
    unfolding JointPrior_call_mask[OF assms(1,2,5,6,7)] JointPrior_call_mask[OF assms(1,3) q assms(6,7)]
      JointPrior_initial_prior_row_of[OF assms(1,2)] JointPrior_initial_prior_row_of[OF assms(1,3)]
    by (simp add: s)
qed

theorem joint_prior_commutes_witness:
  "JointPrior_call (scenario_joint [Length scenario_length, Child scenario_child])
       scenario_actions [1] [1] [1] =
     JointPrior_call (scenario_joint [Child scenario_child, Length scenario_length])
       scenario_actions [1] [1] [1] \<and>
   JointPrior_initial_prior (scenario_joint [Length scenario_length, Child scenario_child]) =
     JointPrior_initial_prior (scenario_joint [Child scenario_child, Length scenario_length])"
  using joint_prior_commutes[OF scenario_library_ok scenario_joint_init, of "[1]" scenario_actions "[1]" "[1]"]
  by (simp add: scenario_child_def scenario_library_def scenario_actions_def)

text \<open>
  C10. In a joint prior over a library that keeps its invariants, every constraint that
  is not a length constraint has the zero vector of length \<open>L\<close> as its initial mask, and
  the joint initial mask is \<open>-inf\<close> exactly at the terminal tokens if a length
  constraint is among the constraints and \<open>0\<close> everywhere otherwise.
\<close>

theorem initial_masks:
  assumes "library_ok lib" and "JointPrior_init lib ps = Inr jp"
  shows "(\<forall>p \<in> set ps. (\<forall>c. p \<noteq> Length c) \<longrightarrow> prior_initial_prior p = Inr (replicate (L lib) (Fin 0))) \<and>
         (\<exists>v. JointPrior_initial_prior jp = Inr v \<and> length v = L lib \<and>
              (\<forall>j < L lib. v ! j =
                 (if (\<exists>c. Length c \<in> set ps) \<and> j \<in> set (terminal_tokens lib) then NInf else Fin 0)))"
proof -
  have "prior_initial_prior p = Inr (replicate (L lib) (Fin 0))"
    if "p \<in> set ps" "\<forall>c. p \<noteq> Length c" for p
  proof -
    have "prior_library p = lib" using JointPrior_init_Inr[OF assms(2)] that(1) by simp
    then show ?thesis
      using that(2) by (cases p) (simp_all add: Prior_initial_prior_def zeros1_def)
  qed
  then show ?thesis
    unfolding JointPrior_initial_prior_row_of[OF assms] by simp
qed

theorem initial_masks_witness:
  "prior_initial_prior (Child scenario_child) = Inr (replicate (L scenario_library) (Fin 0)) \<and>
   (\<exists>v. JointPrior_initial_prior (scenario_joint [Length scenario_length, Child scenario_child]) = Inr v \<and>
        v ! 0 = NInf \<and> v ! 1 = NInf \<and> v ! 2 = Fin 0 \<and> v ! 3 = Fin 0)"
  using initial_masks[OF scenario_library_ok scenario_joint_init(1)]
  by (auto simp: scenario_library_def)

section \<open>The reactive validator\<close>

lemma subtree_open_Nil: "subtree_open U B c [] \<longleftrightarrow> c \<noteq> 0"
  by (simp add: subtree_open_def)

lemma subtree_open_Cons:
  "subtree_open U B c (n # ns) \<longleftrightarrow> c \<noteq> 0 \<and> subtree_open U B (c + counter_step U B n) ns"
proof
  assume l: "subtree_open U B c (n # ns)"
  have "c \<noteq> 0" using l[unfolded subtree_open_def, rule_format, of 0] by simp
  moreover have "c + counter_step U B n + sum_list (map (counter_step U B) (take m ns)) \<noteq> 0"
    if "m \<le> length ns" for m
    using l[unfolded subtree_open_def, rule_format, of "Suc m"] that by (simp add: add.assoc)
  ultimately show "c \<noteq> 0 \<and> subtree_open U B (c + counter_step U B n) ns"
    by (simp add: subtree_open_def)
next
  assume r: "c \<noteq> 0 \<and> subtree_open U B (c + counter_step U B n) ns"
  show "subtree_open U B c (n # ns)"
    unfolding subtree_open_def
  proof (intro allI impI)
    fix m assume "m \<le> length (n # ns)"
    then show "c + sum_list (map (counter_step U B) (take m (n # ns))) \<noteq> 0"
      using r by (cases m) (auto simp: subtree_open_def add.assoc)
  qed
qed

lemma reentered_Nil: "\<not> trig_reentered U B c []"
  by (simp add: trig_reentered_def)

lemma reentered_trig:
  "n \<in> set TRIG_TOKENS \<Longrightarrow> trig_reentered U B c (n # ns) \<longleftrightarrow> c \<noteq> 0"
proof
  assume n: "n \<in> set TRIG_TOKENS" and "trig_reentered U B c (n # ns)"
  then obtain mid b post where
    "n # ns = mid @ b # post" "\<forall>x \<in> set mid. x \<notin> set TRIG_TOKENS" "subtree_open U B c mid"
    unfolding trig_reentered_def by blast
  then show "c \<noteq> 0"
    using n by (cases mid) (auto simp: subtree_open_Nil subtree_open_Cons)
next
  assume "n \<in> set TRIG_TOKENS" "c \<noteq> 0"
  then have "n # ns = [] @ n # ns \<and> n \<in> set TRIG_TOKENS \<and>
      (\<forall>x \<in> set []. x \<notin> set TRIG_TOKENS) \<and> subtree_open U B c []"
    by (simp add: subtree_open_Nil)
  then show "trig_reentered U B c (n # ns)"
    unfolding trig_reentered_def by blast
qed

lemma reentered_other:
  assumes "n \<notin> set TRIG_TOKENS"
  shows "trig_reentered U B c (n # ns) \<longleftrightarrow> c \<noteq> 0 \<and> trig_reentered U B (c + counter_step U B n) ns"
proof
  assume "trig_reentered U B c (n # ns)"
  then obtain mid b post where
    d: "n # ns = mid @ b # post" "b \<in> set TRIG_TOKENS" "\<forall>x \<in> set mid. x \<notin> set TRIG_TOKENS"
       "subtree_open U B c mid"
    unfolding trig_reentered_def by blast
  from d(1,2) assms obtain mid' where m: "mid = n # mid'" "ns = mid' @ b # post"
    by (cases mid) auto
  then show "c \<noteq> 0 \<and> trig_reentered U B (c + counter_step U B n) ns"
    using d(2,3,4) unfolding trig_reentered_def by (auto simp: subtree_open_Cons)
next
  assume r: "c \<noteq> 0 \<and> trig_reentered U B (c + counter_step U B n) ns"
  then obtain mid b post where
    d: "ns = mid @ b # post" "b \<in> set TRIG_TOKENS" "\<forall>x \<in> set mid. x \<notin> set TRIG_TOKENS"
       "subtree_open U B (c + counter_step U B n) mid"
    unfolding trig_reentered_def by blast
  then have "n # ns = (n # mid) @ b # post \<and> b \<in> set TRIG_TOKENS \<and>
      (\<forall>x \<in> set (n # mid). x \<notin> set TRIG_TOKENS) \<and> subtree_open U B c (n # mid)"
    using assms r by (simp add: subtree_open_Cons)
  then show "trig_reentered U B c (n # ns)"
    unfolding trig_reentered_def by blast
qed

lemma reentered_nonzero: "trig_reentered U B c ns \<Longrightarrow> c \<noteq> 0"
  unfolding trig_reentered_def subtree_open_def by force

lemma spec_Nil: "\<not> spec_check_trig U B []"
  by (simp add: spec_check_trig_def)

lemma spec_Cons:
  "spec_check_trig U B (n # ns) \<longleftrightarrow>
     (n \<in> set TRIG_TOKENS \<and> trig_reentered U B 1 ns) \<or> spec_check_trig U B ns"
  unfolding spec_check_trig_def
  by (auto simp: Cons_eq_append_conv)

lemma trig_loop_spec:
  "trig_loop U B flag c ns \<longleftrightarrow>
     (flag \<and> c \<noteq> 0 \<and> trig_reentered U B c ns) \<or> spec_check_trig U B ns"
  if "flag \<longrightarrow> c \<noteq> 0"
  using that
proof (induction ns arbitrary: flag c)
  case Nil
  then show ?case by (simp add: reentered_Nil spec_Nil)
next
  case (Cons n ns)
  show ?case
  proof (cases "n \<in> set TRIG_TOKENS")
    case True
    then show ?thesis
      using Cons.prems Cons.IH[of True 1]
      by (auto simp: spec_Cons reentered_trig)
  next
    case False
    show ?thesis
    proof (cases flag)
      case True
      then show ?thesis
        using False Cons.prems Cons.IH[of True "c + counter_step U B n"] Cons.IH[of False "c + counter_step U B n"]
        by (auto simp: spec_Cons reentered_other Let_def counter_step_def dest: reentered_nonzero)
    next
      case flag: False
      then show ?thesis
        using False Cons.IH[of False c]
        by (simp add: spec_Cons)
    qed
  qed
qed

lemma check_trig_iff_spec: "check_trig U B names \<longleftrightarrow> spec_check_trig U B names"
  by (simp add: check_trig_def trig_loop_spec)

lemma check_trig_examples:
  "check_trig U B [''sin'', ''cos'', ''x1'']" "\<not> check_trig U B [''sin'', ''x1'']"
  by (auto simp: check_trig_def TRIG_TOKENS_def)

text \<open>
  C6. \<^verbatim>\<open>check_trig\<close> returns true exactly when the names violate the nesting rule as
  the specification words it: a trigonometric token arrives while the subtree of the
  previous one is still open. The names \<open>sin\<close>, \<open>cos\<close>, \<open>x1\<close> are a violation and the
  names \<open>sin\<close>, \<open>x1\<close> are not, whatever the unary and binary tokens.
\<close>

theorem check_trig_refines_spec:
  "(check_trig unary binary names \<longleftrightarrow> spec_check_trig unary binary names) \<and>
   check_trig unary binary [''sin'', ''cos'', ''x1''] \<and>
   \<not> check_trig unary binary [''sin'', ''x1'']"
  using check_trig_iff_spec[of unary binary names] check_trig_examples[of unary binary]
  by blast

theorem check_trig_refines_spec_witness:
  "spec_check_trig example_unary example_binary [''sin'', ''cos'', ''x1''] \<and>
   \<not> spec_check_trig example_unary example_binary [''sin'', ''x1'']"
  using check_trig_refines_spec[of example_unary example_binary "[''sin'', ''cos'', ''x1'']"]
    check_trig_refines_spec[of example_unary example_binary "[''sin'', ''x1'']"]
  by blast

lemma adjacent_inverses_Cons:
  "adjacent_inverses (a # b # rest) \<longleftrightarrow>
     map_of INVERSE_TOKENS a = Some b \<or> adjacent_inverses (b # rest)"
proof
  assume "adjacent_inverses (a # b # rest)"
  then obtain i where i: "Suc i < length (a # b # rest)"
    "map_of INVERSE_TOKENS ((a # b # rest) ! i) = Some ((a # b # rest) ! Suc i)"
    unfolding adjacent_inverses_def by blast
  show "map_of INVERSE_TOKENS a = Some b \<or> adjacent_inverses (b # rest)"
  proof (cases i)
    case 0
    then show ?thesis using i by simp
  next
    case (Suc k)
    then have "Suc k < length (b # rest) \<and>
        map_of INVERSE_TOKENS ((b # rest) ! k) = Some ((b # rest) ! Suc k)"
      using i by simp
    then show ?thesis unfolding adjacent_inverses_def by blast
  qed
next
  assume "map_of INVERSE_TOKENS a = Some b \<or> adjacent_inverses (b # rest)"
  then show "adjacent_inverses (a # b # rest)"
  proof
    assume "map_of INVERSE_TOKENS a = Some b"
    then have "Suc 0 < length (a # b # rest) \<and>
        map_of INVERSE_TOKENS ((a # b # rest) ! 0) = Some ((a # b # rest) ! Suc 0)"
      by simp
    then show ?thesis unfolding adjacent_inverses_def by blast
  next
    assume "adjacent_inverses (b # rest)"
    then obtain k where "Suc k < length (b # rest)"
      "map_of INVERSE_TOKENS ((b # rest) ! k) = Some ((b # rest) ! Suc k)"
      unfolding adjacent_inverses_def by blast
    then have "Suc (Suc k) < length (a # b # rest) \<and>
        map_of INVERSE_TOKENS ((a # b # rest) ! Suc k) = Some ((a # b # rest) ! Suc (Suc k))"
      by simp
    then show ?thesis unfolding adjacent_inverses_def by blast
  qed
qed

lemma check_inv_iff: "check_inv names \<longleftrightarrow> adjacent_inverses names"
proof (induction names rule: check_inv.induct)
  case (1 a b rest)
  then show ?case
    by (auto simp: adjacent_inverses_Cons split: option.splits)
qed (simp_all add: adjacent_inverses_def)

lemma check_loop_total:
  "keep_inds \<noteq> [] \<Longrightarrow> \<exists>outs. check_loop U B mxl mnl mxd rng keep_inds k news = Inr outs"
proof (induction news arbitrary: k)
  case Nil
  then show ?case by simp
next
  case (Cons ind rest)
  from Cons.IH[OF Cons.prems, of k] obtain o1 where
    o1: "check_loop U B mxl mnl mxd rng keep_inds k rest = Inr o1" by blast
  from Cons.IH[OF Cons.prems, of "Suc k"] obtain o2 where
    o2: "check_loop U B mxl mnl mxd rng keep_inds (Suc k) rest = Inr o2" by blast
  show ?case
    using Cons.prems by (simp add: Let_def o1 o2 then_do_def random_choice_def)
qed

lemma check_loop_Inr:
  assumes "check_loop U B mxl mnl mxd rng keep_inds k news = Inr outs"
  shows "length outs = length news \<and>
         (\<forall>i < length news.
            (outs ! i = news ! i \<and> passes_checks U B mxl mnl mxd (news ! i)) \<or>
            (outs ! i \<in> set keep_inds \<and> \<not> passes_checks U B mxl mnl mxd (news ! i)))"
  using assms
proof (induction news arbitrary: k outs)
  case Nil
  then show ?case by simp
next
  case (Cons ind rest)
  show ?case
  proof (cases "passes_checks U B mxl mnl mxd ind")
    case True
    then have "then_do (check_loop U B mxl mnl mxd rng keep_inds k rest) (\<lambda>r. Inr (ind # r)) = Inr outs"
      using Cons.prems
      by (simp add: passes_checks_def Let_def check_inv_iff check_trig_iff_spec)
    then obtain r where r: "check_loop U B mxl mnl mxd rng keep_inds k rest = Inr r" "outs = ind # r"
      by (auto simp: then_do_def split: sum.splits)
    from Cons.IH[OF r(1)] show ?thesis
      using True r(2) by (auto simp: nth_Cons split: nat.splits)
  next
    case False
    then have "then_do (random_choice rng k keep_inds)
        (\<lambda>c. then_do (check_loop U B mxl mnl mxd rng keep_inds (Suc k) rest) (\<lambda>r. Inr (c # r))) = Inr outs"
      using Cons.prems
      by (auto simp: passes_checks_def Let_def check_inv_iff check_trig_iff_spec split: if_splits)
    then obtain c r where r: "random_choice rng k keep_inds = Inr c"
      "check_loop U B mxl mnl mxd rng keep_inds (Suc k) rest = Inr r" "outs = c # r"
      by (auto simp: then_do_def split: sum.splits)
    from r(1) have "c \<in> set keep_inds"
      by (auto simp: random_choice_def split: if_splits)
    with Cons.IH[OF r(2)] show ?thesis
      using False r(3) by (auto simp: nth_Cons split: nat.splits)
  qed
qed

text \<open>
  C7. A call of a wrapped operator with at least one argument returns, and whenever it
  returns, the result has one individual per individual the operator produced: either the
  produced one, which then passes all five checks, or one of the arguments as they were
  before the operator ran, which happens exactly when the produced one fails a check.
\<close>

theorem checkConstraint_result:
  "(args \<noteq> [] \<longrightarrow>
      (\<exists>outs. checkConstraint U B max_length min_length max_depth rng func args = Inr outs)) \<and>
   (\<forall>outs. checkConstraint U B max_length min_length max_depth rng func args = Inr outs \<longrightarrow>
      length outs = length (func args) \<and>
      (\<forall>i < length outs.
         (outs ! i = func args ! i \<and>
          passes_checks U B max_length min_length max_depth (func args ! i)) \<or>
         (outs ! i \<in> set args \<and>
          \<not> passes_checks U B max_length min_length max_depth (func args ! i))))"
  unfolding checkConstraint_def Let_def
  using check_loop_total[of args U B max_length min_length max_depth rng 0 "func args"]
    check_loop_Inr[of U B max_length min_length max_depth rng args 0 "func args"]
  by auto

lemma example_run:
  "checkConstraint example_unary example_binary 5 1 3 (\<lambda>k. 0)
     (\<lambda>args. [example_nested, example_valid]) [example_parent] = Inr [example_parent, example_valid]"
  by code_simp

theorem checkConstraint_result_witness:
  "checkConstraint example_unary example_binary 5 1 3 (\<lambda>k. 0)
     (\<lambda>args. [example_nested, example_valid]) [example_parent] = Inr [example_parent, example_valid] \<and>
   passes_checks example_unary example_binary 5 1 3 example_valid \<and>
   \<not> passes_checks example_unary example_binary 5 1 3 example_nested"
proof -
  let ?f = "\<lambda>args::individual list. [example_nested, example_valid]"
  have cells: "\<forall>i < length [example_parent, example_valid].
      ([example_parent, example_valid] ! i = ?f [example_parent] ! i \<and>
       passes_checks example_unary example_binary 5 1 3 (?f [example_parent] ! i)) \<or>
      ([example_parent, example_valid] ! i \<in> set [example_parent] \<and>
       \<not> passes_checks example_unary example_binary 5 1 3 (?f [example_parent] ! i))"
    using checkConstraint_result[of "[example_parent]" example_unary example_binary 5 1 3 "\<lambda>k. 0" ?f]
      example_run by blast
  have ne: "example_parent \<noteq> example_nested" "example_valid \<noteq> example_parent"
    by (simp_all add: example_parent_def example_nested_def example_valid_def)
  from cells[rule_format, of 0] cells[rule_format, of 1] ne example_run show ?thesis
    by simp
qed

end
